theory Spec2Isabelle
  imports Complex_Main "HOL-Library.AList"
begin

section \<open>Data model\<close>

text \<open>
  The option chain is the list that \<open>Tradier.get_options_chain(...).get('data')\<close> hands to
  every function of \<open>modules/providers/tradier.py\<close>: one dictionary per contract. The
  fields read by the functions modelled here are the fields of the record.  JSON numbers
  that may carry a fraction (strike, prices, greeks) are exact rationals; Python floating
  point rounding is not modelled.  A JSON \<open>null\<close> is \<open>None\<close>.  The nested \<open>greeks\<close>
  dictionary is an association list read with \<open>map_of\<close> (Python \<open>.get\<close>).
\<close>

record contract =
  strike :: rat
  option_type :: string
  open_interest :: int
  volume :: int
  greeks :: "(string \<times> rat) list option"
  last_c :: "rat option"
  bid :: "rat option"
  ask :: "rat option"

text \<open>Exceptions of the Python code that reach the caller.\<close>

datatype py_error = ZeroDivisionError | IndexError | ValueError | StopIteration

text \<open>
  Every output entry \<open>{'strike': k, <name>: v}\<close> is the pair \<open>(k, v)\<close>.  A Python
  \<open>dict\<close> keeps its keys in insertion order and an assignment to a key already present
  replaces the value in place; \<open>AList.update\<close> is exactly that operation on the list of
  items, so a dictionary is the list that \<open>.items()\<close> iterates.
\<close>

type_synonym 'v strike_dict = "(rat \<times> 'v) list"

text \<open>
  The loop shared by \<open>get_open_interest\<close>, \<open>_get_volume\<close> and \<open>_get_last_bid_ask\<close>:
  \<^verbatim>\<open>
  for strike in options_chain:
      if strike['option_type'] == 'call':
          call_data[strike['strike']] = strike[FIELD]
      elif strike['option_type'] == 'put':
          put_data[strike['strike']] = strike[FIELD]
  \<close>
  The state is the pair \<open>(call_data, put_data)\<close>.
\<close>

fun by_type_loop ::
  "(contract \<Rightarrow> 'v) \<Rightarrow> contract list \<Rightarrow> 'v strike_dict \<times> 'v strike_dict
     \<Rightarrow> 'v strike_dict \<times> 'v strike_dict" where
  "by_type_loop field [] (call_data, put_data) = (call_data, put_data)"
| "by_type_loop field (s # rest) (call_data, put_data) =
     (if option_type s = ''call''
      then by_type_loop field rest (AList.update (strike s) (field s) call_data, put_data)
      else if option_type s = ''put''
      then by_type_loop field rest (call_data, AList.update (strike s) (field s) put_data)
      else by_type_loop field rest (call_data, put_data))"

section \<open>Open interest: \<open>Tradier.get_open_interest\<close>\<close>

record open_interest_data =
  Calls :: "int strike_dict"
  Puts :: "int strike_dict"
  total_call_oi :: int
  total_put_oi :: int
  put_call_ratio :: rat

text \<open>
  \<^verbatim>\<open>
  for call, put in zip(call_list, put_list):
      total_call_oi += call.get('open_interest', 0)
      total_put_oi += put.get('open_interest', 0)
  \<close>
\<close>

fun zip_totals :: "int strike_dict \<Rightarrow> int strike_dict \<Rightarrow> int \<times> int \<Rightarrow> int \<times> int" where
  "zip_totals (call # cs) (put # ps) (total_call, total_put) =
     zip_totals cs ps (total_call + snd call, total_put + snd put)"
| "zip_totals _ _ (total_call, total_put) = (total_call, total_put)"

text \<open>\<open>total_put_oi / total_call_oi\<close> on Python integers: true division, which raises on 0.\<close>

definition true_div :: "int \<Rightarrow> int \<Rightarrow> py_error + rat" where
  "true_div a b = (if b = 0 then Inl ZeroDivisionError else Inr (of_int a / of_int b))"

text \<open>
  The function returns a dictionary; \<open>Some\<close> is a dictionary that is non-empty and has the
  key \<open>'data'\<close> (the only kind this function builds), \<open>None\<close> would be a falsy one.  The
  constant envelope (\<open>description\<close>, \<open>root_symbol\<close>, \<open>expiration_date\<close>) is left out: the
  value is the content of \<open>'data'\<close>.
\<close>

definition get_open_interest :: "contract list \<Rightarrow> py_error + open_interest_data option" where
  "get_open_interest options_chain =
     (let (call_data, put_data) = by_type_loop open_interest options_chain ([], []);
          call_list = call_data;
          put_list = put_data;
          (total_call, total_put) = zip_totals call_list put_list (0, 0)
      in case true_div total_put total_call of
           Inl e \<Rightarrow> Inl e
         | Inr ratio \<Rightarrow>
             Inr (Some \<lparr>Calls = call_list, Puts = put_list, total_call_oi = total_call,
                        total_put_oi = total_put, put_call_ratio = ratio\<rparr>))"

section \<open>Max pain: \<open>MaxPain.get_cash_values\<close>\<close>

record cash_data =
  cash_Calls :: "rat strike_dict"
  cash_Puts :: "rat strike_dict"
  Sums :: "rat strike_dict"
  max_pain :: "rat \<times> rat"

definition call_cash_value :: "rat \<Rightarrow> rat \<Rightarrow> int \<Rightarrow> rat" where
  "call_cash_value close k oi =
     (if (close - k) * of_int oi * 100 < 0 then 0 else (close - k) * of_int oi * 100)"

definition put_cash_value :: "rat \<Rightarrow> rat \<Rightarrow> int \<Rightarrow> rat" where
  "put_cash_value close k oi =
     (if (k - close) * of_int oi * 100 < 0 then 0 else (k - close) * of_int oi * 100)"

text \<open>
  The inner loop \<open>for i in range(len(call_strikes))\<close>; both lists it indexes are built from
  the same \<open>calls_data\<close>, so they have one length and every index is in range.
\<close>

definition call_cash_sum :: "rat list \<Rightarrow> int list \<Rightarrow> rat \<Rightarrow> rat" where
  "call_cash_sum call_strikes call_open_interest close =
     fold (\<lambda>i s. s + call_cash_value close (call_strikes ! i) (call_open_interest ! i))
       [0..<length call_strikes] 0"

definition put_cash_sum :: "rat list \<Rightarrow> int list \<Rightarrow> rat \<Rightarrow> rat" where
  "put_cash_sum put_strikes put_open_interest close =
     fold (\<lambda>i s. s + put_cash_value close (put_strikes ! i) (put_open_interest ! i))
       [0..<length put_strikes] 0"

text \<open>
  \<^verbatim>\<open>
  for i in range(len(call_cash_values)):
      sum_ = call_cash_values[i].get('cash') + put_cash_values[i].get('cash')
      sum_cash_values.append({'strike': call_cash_values[i].get('strike'), 'cash': sum_})
  \<close>
  A list index past the end raises \<open>IndexError\<close>.
\<close>

fun sum_loop ::
  "rat strike_dict \<Rightarrow> rat strike_dict \<Rightarrow> nat list \<Rightarrow> rat strike_dict
     \<Rightarrow> py_error + rat strike_dict" where
  "sum_loop call_cash_values put_cash_values [] sum_cash_values = Inr sum_cash_values"
| "sum_loop call_cash_values put_cash_values (i # rest) sum_cash_values =
     (if i < length call_cash_values \<and> i < length put_cash_values
      then sum_loop call_cash_values put_cash_values rest
             (sum_cash_values @
                [(fst (call_cash_values ! i),
                  snd (call_cash_values ! i) + snd (put_cash_values ! i))])
      else Inl IndexError)"

text \<open>\<open>min(list)\<close> raises \<open>ValueError\<close> on an empty list.\<close>

definition py_min :: "rat list \<Rightarrow> py_error + rat" where
  "py_min xs = (case xs of [] \<Rightarrow> Inl ValueError | x # rest \<Rightarrow> Inr (fold min rest x))"

text \<open>\<open>next(i.get('strike') for i in sum_cash_values if i.get('cash') == m)\<close>.\<close>

fun py_next :: "rat strike_dict \<Rightarrow> rat \<Rightarrow> py_error + rat" where
  "py_next [] m = Inl StopIteration"
| "py_next (i # rest) m = (if snd i = m then Inr (fst i) else py_next rest m)"

text \<open>
  The two outer loops over \<open>sorted(set(call_strikes))\<close> and \<open>sorted(set(put_strikes))\<close>
  append one entry \<open>{'strike': close, 'cash': sum}\<close> per hypothetical close.
\<close>

definition call_cash_values :: "int strike_dict \<Rightarrow> rat strike_dict" where
  "call_cash_values calls_data =
     (let call_strikes = map fst calls_data;
          call_open_interest = map snd calls_data;
          hypothetical_call_closes = sorted_list_of_set (set call_strikes)
      in map (\<lambda>close. (close, call_cash_sum call_strikes call_open_interest close))
           hypothetical_call_closes)"

definition put_cash_values :: "int strike_dict \<Rightarrow> rat strike_dict" where
  "put_cash_values puts_data =
     (let put_strikes = map fst puts_data;
          put_open_interest = map snd puts_data;
          hypothetical_put_closes = sorted_list_of_set (set put_strikes)
      in map (\<lambda>close. (close, put_cash_sum put_strikes put_open_interest close))
           hypothetical_put_closes)"

definition sum_cash_values ::
  "rat strike_dict \<Rightarrow> rat strike_dict \<Rightarrow> py_error + rat strike_dict" where
  "sum_cash_values calls puts = sum_loop calls puts [0..<length calls] []"

text \<open>
  The result is \<open>None\<close> for the \<open>return []\<close> of the guard and \<open>Some\<close> of the content of
  \<open>'data'\<close> otherwise (the envelope \<open>ticker\<close>, \<open>expiration_date\<close> is left out).  An exception
  of \<open>get_open_interest\<close> is not caught and leaves \<open>get_cash_values\<close> as it is.
\<close>

definition get_cash_values :: "contract list \<Rightarrow> py_error + cash_data option" where
  "get_cash_values options_chain =
     (case get_open_interest options_chain of
        Inl e \<Rightarrow> Inl e
      | Inr None \<Rightarrow> Inr None
      | Inr (Some open_interest_for_chain) \<Rightarrow>
          (let calls_data = Calls open_interest_for_chain;
               puts_data = Puts open_interest_for_chain;
               calls = call_cash_values calls_data;
               puts = put_cash_values puts_data
           in case sum_cash_values calls puts of
                Inl e \<Rightarrow> Inl e
              | Inr sum_values \<Rightarrow>
                  (case py_min (map snd sum_values) of
                     Inl e \<Rightarrow> Inl e
                   | Inr max_pain_cash_value \<Rightarrow>
                       (case py_next sum_values max_pain_cash_value of
                          Inl e \<Rightarrow> Inl e
                        | Inr max_pain_strike \<Rightarrow>
                            Inr (Some \<lparr>cash_Calls = calls, cash_Puts = puts, Sums = sum_values,
                                       max_pain = (max_pain_strike, max_pain_cash_value)\<rparr>)))))"

section \<open>Derived metrics: volume, implied volatility, last/bid/ask, greeks\<close>

text \<open>
  Each extractor returns \<open>{'Calls': call_list, 'Puts': put_list}\<close> under \<open>'data'\<close>; the
  value here is the pair \<open>(call_list, put_list)\<close>.
\<close>

definition get_volume :: "contract list \<Rightarrow> int strike_dict \<times> int strike_dict" where
  "get_volume options_chain =
     (let (call_data, put_data) = by_type_loop volume options_chain ([], [])
      in (call_data, put_data))"

definition get_last_bid_ask ::
  "contract list \<Rightarrow>
     (rat option \<times> rat option \<times> rat option) strike_dict \<times>
     (rat option \<times> rat option \<times> rat option) strike_dict" where
  "get_last_bid_ask options_chain =
     (let (call_data, put_data) =
            by_type_loop (\<lambda>s. (last_c s, bid s, ask s)) options_chain ([], [])
      in (call_data, put_data))"

text \<open>
  \<open>_get_implied_volatility\<close> runs the same loop on \<open>strike['greeks'].get('mid_iv')\<close> inside
  \<open>try: ... except: return {}\<close>.  When \<open>greeks\<close> is \<open>null\<close> the attribute access raises;
  the loop state is then \<open>None\<close> and the function returns the empty dictionary, \<open>None\<close>.
\<close>

fun iv_loop ::
  "contract list \<Rightarrow> rat option strike_dict \<times> rat option strike_dict
     \<Rightarrow> (rat option strike_dict \<times> rat option strike_dict) option" where
  "iv_loop [] (call_data, put_data) = Some (call_data, put_data)"
| "iv_loop (s # rest) (call_data, put_data) =
     (if option_type s = ''call''
      then (case greeks s of
              None \<Rightarrow> None
            | Some g \<Rightarrow>
                iv_loop rest (AList.update (strike s) (map_of g ''mid_iv'') call_data, put_data))
      else if option_type s = ''put''
      then (case greeks s of
              None \<Rightarrow> None
            | Some g \<Rightarrow>
                iv_loop rest (call_data, AList.update (strike s) (map_of g ''mid_iv'') put_data))
      else iv_loop rest (call_data, put_data))"

definition get_implied_volatility ::
  "contract list \<Rightarrow> (rat option strike_dict \<times> rat option strike_dict) option" where
  "get_implied_volatility options_chain =
     (case iv_loop options_chain ([], []) of
        None \<Rightarrow> None
      | Some (call_data, put_data) \<Rightarrow> Some (call_data, put_data))"

text \<open>
  \<open>_get_greeks\<close> appends one entry per contract to a list (no dictionary):
  \<^verbatim>\<open>
  if strike['option_type'] == 'call':
      call_greeks.append({'strike': strike['strike'], 'greeks': strike.get('greeks')})
  elif strike['option_type'] == 'put':
      put_greeks.append({'strike': strike['strike'], 'greeks': strike.get('greeks')})
  \<close>
\<close>

fun greeks_loop ::
  "contract list \<Rightarrow>
     (string \<times> rat) list option strike_dict \<times> (string \<times> rat) list option strike_dict \<Rightarrow>
     (string \<times> rat) list option strike_dict \<times> (string \<times> rat) list option strike_dict" where
  "greeks_loop [] (call_greeks, put_greeks) = (call_greeks, put_greeks)"
| "greeks_loop (s # rest) (call_greeks, put_greeks) =
     (if option_type s = ''call''
      then greeks_loop rest (call_greeks @ [(strike s, greeks s)], put_greeks)
      else if option_type s = ''put''
      then greeks_loop rest (call_greeks, put_greeks @ [(strike s, greeks s)])
      else greeks_loop rest (call_greeks, put_greeks))"

definition get_greeks ::
  "contract list \<Rightarrow>
     (string \<times> rat) list option strike_dict \<times> (string \<times> rat) list option strike_dict" where
  "get_greeks option_chain = greeks_loop option_chain ([], [])"

section \<open>Notions used to state the properties\<close>

text \<open>The contracts of one side, in provider order.\<close>

definition call_side :: "contract list \<Rightarrow> contract list" where
  "call_side chain = filter (\<lambda>s. option_type s = ''call'') chain"

definition put_side :: "contract list \<Rightarrow> contract list" where
  "put_side chain = filter (\<lambda>s. option_type s = ''put'') chain"

text \<open>The dictionary that the loop builds from the contracts of one side.\<close>

definition strike_dict_of :: "(contract \<Rightarrow> 'v) \<Rightarrow> contract list \<Rightarrow> 'v strike_dict" where
  "strike_dict_of field side = fold (\<lambda>s. AList.update (strike s) (field s)) side []"

text \<open>The elements of a list in the order of their first occurrence, each once.\<close>

definition first_seen :: "'a list \<Rightarrow> 'a list" where
  "first_seen xs = rev (remdups (rev xs))"


text \<open>Concrete chains on which the theorems are instantiated.\<close>

definition mk_contract :: "rat \<Rightarrow> string \<Rightarrow> int \<Rightarrow> contract" where
  "mk_contract k t oi =
     \<lparr>strike = k, option_type = t, open_interest = oi, volume = 0, greeks = None,
      last_c = None, bid = None, ask = None\<rparr>"

definition scenario_chain :: "contract list" where
  "scenario_chain =
     [mk_contract 100 ''call'' 10, mk_contract 105 ''call'' 5,
      mk_contract 100 ''put'' 8, mk_contract 105 ''put'' 12]"

definition uneven_chain :: "contract list" where
  "uneven_chain =
     [mk_contract 100 ''call'' 10, mk_contract 105 ''call'' 5, mk_contract 110 ''call'' 7,
      mk_contract 100 ''put'' 8]"

definition repeated_strike_chain :: "contract list" where
  "repeated_strike_chain =
     [mk_contract 105 ''call'' 10, mk_contract 100 ''call'' 5, mk_contract 100 ''put'' 8,
      mk_contract 105 ''call'' 7]"


definition zero_call_oi_chain :: "contract list" where
  "zero_call_oi_chain = [mk_contract 100 ''call'' 0, mk_contract 100 ''put'' 8]"

definition calls_only_chain :: "contract list" where
  "calls_only_chain = [mk_contract 100 ''call'' 10, mk_contract 105 ''call'' 5]"

section \<open>Auxiliary facts\<close>

lemma by_type_loop_fold:
  "by_type_loop f chain (cd, pd) =
     (fold (\<lambda>s. AList.update (strike s) (f s)) (filter (\<lambda>s. option_type s = ''call'') chain) cd,
      fold (\<lambda>s. AList.update (strike s) (f s)) (filter (\<lambda>s. option_type s = ''put'') chain) pd)"
  by (induction chain arbitrary: cd pd) auto

lemma fold_update_distinct:
  "distinct (map fst al) \<Longrightarrow> distinct (map fst (fold (\<lambda>s. AList.update (k s) (f s)) xs al))"
  by (induction xs arbitrary: al) (simp_all add: distinct_update)

lemma fold_update_keys:
  "map fst (fold (\<lambda>s. AList.update (k s) (f s)) xs []) = rev (remdups (rev (map k xs)))"
proof (induction xs rule: rev_induct)
  case Nil
  then show ?case by simp
next
  case (snoc x xs)
  then show ?case by (simp add: update_keys)
qed

lemma fold_update_map_of:
  "map_of (fold (\<lambda>s. AList.update (k s) (f s)) xs []) key =
     (if key \<in> k ` set xs then Some (f (last (filter (\<lambda>s. k s = key) xs))) else None)"
proof (induction xs rule: rev_induct)
  case Nil
  then show ?case by simp
next
  case (snoc x xs)
  then show ?case by (auto simp: update_conv')
qed

lemma fold_update_entry:
  "(key, v) \<in> set (fold (\<lambda>s. AList.update (k s) (f s)) xs []) \<longleftrightarrow>
     key \<in> k ` set xs \<and> v = f (last (filter (\<lambda>s. k s = key) xs))"
proof -
  have d: "distinct (map fst (fold (\<lambda>s. AList.update (k s) (f s)) xs []))"
    by (rule fold_update_distinct) simp
  have "(key, v) \<in> set (fold (\<lambda>s. AList.update (k s) (f s)) xs []) \<longleftrightarrow>
        map_of (fold (\<lambda>s. AList.update (k s) (f s)) xs []) key = Some v"
    using d by simp
  then show ?thesis by (auto simp: fold_update_map_of)
qed

lemma update_fresh_append:
  "key \<notin> fst ` set al \<Longrightarrow> AList.update key v al = al @ [(key, v)]"
  by (induction al) auto

lemma fold_update_distinct_keys:
  "distinct (map k xs) \<Longrightarrow>
     fold (\<lambda>s. AList.update (k s) (f s)) xs [] = map (\<lambda>s. (k s, f s)) xs"
proof (induction xs rule: rev_induct)
  case Nil
  then show ?case by simp
next
  case (snoc x xs)
  then show ?case by (simp add: update_fresh_append image_image)
qed

lemma zip_totals_take:
  "zip_totals cs ps (a, b) =
     (a + sum_list (map snd (take (min (length cs) (length ps)) cs)),
      b + sum_list (map snd (take (min (length cs) (length ps)) ps)))"
  by (induction cs ps "(a, b)" arbitrary: a b rule: zip_totals.induct) auto

lemma fold_plus_sum_list:
  "fold (\<lambda>i s. s + g i) xs (a::rat) = a + sum_list (map g xs)"
  by (induction xs arbitrary: a) (simp_all add: add.assoc)

lemma sum_loop_eq:
  "sum_loop cs ps idx acc =
     (if \<forall>i\<in>set idx. i < length cs \<and> i < length ps
      then Inr (acc @ map (\<lambda>i. (fst (cs ! i), snd (cs ! i) + snd (ps ! i))) idx)
      else Inl IndexError)"
  by (induction idx arbitrary: acc) auto

lemma sum_cash_values_eq:
  "sum_cash_values cs ps =
     (if length cs \<le> length ps
      then Inr (map (\<lambda>i. (fst (cs ! i), snd (cs ! i) + snd (ps ! i))) [0..<length cs])
      else Inl IndexError)"
  unfolding sum_cash_values_def sum_loop_eq
  by (auto simp: not_le)

lemma py_min_eq:
  assumes "xs \<noteq> []"
  shows "py_min xs = Inr (Min (set xs))"
proof (cases xs)
  case Nil
  with assms show ?thesis by simp
next
  case (Cons x rest)
  have "fold min rest x = Min (set (x # rest))"
    by (rule Min.set_eq_fold [symmetric])
  with Cons show ?thesis by (simp add: py_min_def)
qed

lemma py_next_find:
  "py_next es m = (case find (\<lambda>e. snd e = m) es of None \<Rightarrow> Inl StopIteration | Some e \<Rightarrow> Inr (fst e))"
  by (induction es) auto

lemma by_type_loop_sides:
  "by_type_loop f chain ([], []) =
     (strike_dict_of f (call_side chain), strike_dict_of f (put_side chain))"
  by (simp add: by_type_loop_fold strike_dict_of_def call_side_def put_side_def)

lemma get_open_interest_unfold:
  "get_open_interest chain =
     (let cl = strike_dict_of open_interest (call_side chain);
          pl = strike_dict_of open_interest (put_side chain);
          n = min (length cl) (length pl);
          tc = sum_list (map snd (take n cl));
          tp = sum_list (map snd (take n pl))
      in if tc = 0 then Inl ZeroDivisionError
         else Inr (Some \<lparr>Calls = cl, Puts = pl, total_call_oi = tc, total_put_oi = tp,
                          put_call_ratio = of_int tp / of_int tc\<rparr>))"
  by (simp add: get_open_interest_def by_type_loop_sides zip_totals_take true_div_def Let_def)

lemma get_open_interest_SomeD:
  assumes "get_open_interest chain = Inr (Some r)"
  shows "Calls r = strike_dict_of open_interest (call_side chain)"
    and "Puts r = strike_dict_of open_interest (put_side chain)"
    and "total_call_oi r = sum_list (map snd (take (min (length (Calls r)) (length (Puts r))) (Calls r)))"
    and "total_put_oi r = sum_list (map snd (take (min (length (Calls r)) (length (Puts r))) (Puts r)))"
    and "total_call_oi r \<noteq> 0"
    and "put_call_ratio r = of_int (total_put_oi r) / of_int (total_call_oi r)"
  using assms
  by (auto simp: get_open_interest_unfold Let_def split: if_splits)

lemma get_open_interest_not_None: "get_open_interest chain \<noteq> Inr None"
  by (simp add: get_open_interest_unfold Let_def)

lemma strike_dict_of_distinct: "distinct (map fst (strike_dict_of f side))"
  unfolding strike_dict_of_def by (rule fold_update_distinct) simp

lemma strike_dict_of_keys:
  "map fst (strike_dict_of f side) = first_seen (map strike side)"
  unfolding strike_dict_of_def first_seen_def by (rule fold_update_keys)

lemma strike_dict_of_key_set: "fst ` set (strike_dict_of f side) = strike ` set side"
proof -
  have "set (map fst (strike_dict_of f side)) = set (first_seen (map strike side))"
    by (simp only: strike_dict_of_keys)
  then show ?thesis by (simp add: first_seen_def)
qed

lemma strike_dict_of_entry:
  "(k, v) \<in> set (strike_dict_of f side) \<longleftrightarrow>
     k \<in> strike ` set side \<and> v = f (last (filter (\<lambda>s. strike s = k) side))"
  unfolding strike_dict_of_def by (rule fold_update_entry)

lemma call_cash_value_nonneg: "0 \<le> call_cash_value close k oi"
  by (simp add: call_cash_value_def)

lemma put_cash_value_nonneg: "0 \<le> put_cash_value close k oi"
  by (simp add: put_cash_value_def)

lemma call_cash_sum_nonneg: "0 \<le> call_cash_sum ks ois close"
  unfolding call_cash_sum_def fold_plus_sum_list
  by (auto intro!: sum_list_nonneg simp: call_cash_value_nonneg)

lemma put_cash_sum_nonneg: "0 \<le> put_cash_sum ks ois close"
  unfolding put_cash_sum_def fold_plus_sum_list
  by (auto intro!: sum_list_nonneg simp: put_cash_value_nonneg)

lemma call_cash_values_keys:
  "map fst (call_cash_values cd) = sorted_list_of_set (fst ` set cd)"
  by (simp add: call_cash_values_def Let_def comp_def)

lemma put_cash_values_keys:
  "map fst (put_cash_values pd) = sorted_list_of_set (fst ` set pd)"
  by (simp add: put_cash_values_def Let_def comp_def)

lemma call_cash_values_length: "length (call_cash_values cd) = card (fst ` set cd)"
proof -
  have "length (call_cash_values cd) = length (map fst (call_cash_values cd))" by simp
  also have "\<dots> = card (fst ` set cd)" by (simp only: call_cash_values_keys) simp
  finally show ?thesis .
qed

lemma put_cash_values_length: "length (put_cash_values pd) = card (fst ` set pd)"
proof -
  have "length (put_cash_values pd) = length (map fst (put_cash_values pd))" by simp
  also have "\<dots> = card (fst ` set pd)" by (simp only: put_cash_values_keys) simp
  finally show ?thesis .
qed

lemma call_cash_values_nonneg: "e \<in> set (call_cash_values cd) \<Longrightarrow> 0 \<le> snd e"
  by (auto simp: call_cash_values_def Let_def call_cash_sum_nonneg)

lemma put_cash_values_nonneg: "e \<in> set (put_cash_values pd) \<Longrightarrow> 0 \<le> snd e"
  by (auto simp: put_cash_values_def Let_def put_cash_sum_nonneg)

lemma sum_cash_values_InrD:
  assumes "sum_cash_values cs ps = Inr sv"
  shows "length cs \<le> length ps"
    and "sv = map (\<lambda>i. (fst (cs ! i), snd (cs ! i) + snd (ps ! i))) [0..<length cs]"
  using assms by (auto simp: sum_cash_values_eq split: if_splits)

lemma sum_cash_values_keys:
  assumes "sum_cash_values cs ps = Inr sv"
  shows "map fst sv = map fst cs"
proof -
  have "map fst sv = map (\<lambda>i. fst (cs ! i)) [0..<length cs]"
    by (simp add: sum_cash_values_InrD(2) [OF assms] comp_def)
  also have "\<dots> = map fst cs"
    by (rule nth_equalityI) simp_all
  finally show ?thesis .
qed

lemma get_cash_values_unfold:
  assumes "get_open_interest chain = Inr (Some oi)"
  shows "get_cash_values chain =
     (case sum_cash_values (call_cash_values (Calls oi)) (put_cash_values (Puts oi)) of
        Inl e \<Rightarrow> Inl e
      | Inr sv \<Rightarrow>
          (case py_min (map snd sv) of
             Inl e \<Rightarrow> Inl e
           | Inr m \<Rightarrow>
               (case py_next sv m of
                  Inl e \<Rightarrow> Inl e
                | Inr k \<Rightarrow>
                    Inr (Some \<lparr>cash_Calls = call_cash_values (Calls oi),
                               cash_Puts = put_cash_values (Puts oi),
                               Sums = sv, max_pain = (k, m)\<rparr>))))"
  by (simp add: get_cash_values_def assms Let_def)

lemma get_cash_values_SomeD:
  assumes "get_cash_values chain = Inr (Some r)"
  shows "\<exists>oi. get_open_interest chain = Inr (Some oi) \<and>
           cash_Calls r = call_cash_values (Calls oi) \<and>
           cash_Puts r = put_cash_values (Puts oi) \<and>
           sum_cash_values (cash_Calls r) (cash_Puts r) = Inr (Sums r) \<and>
           py_min (map snd (Sums r)) = Inr (snd (max_pain r)) \<and>
           py_next (Sums r) (snd (max_pain r)) = Inr (fst (max_pain r))"
proof (cases "get_open_interest chain")
  case (Inl e)
  with assms show ?thesis by (simp add: get_cash_values_def)
next
  case (Inr o1)
  show ?thesis
  proof (cases o1)
    case None
    with Inr show ?thesis using get_open_interest_not_None [of chain] by simp
  next
    case (Some oi)
    with Inr have oi: "get_open_interest chain = Inr (Some oi)" by simp
    from assms show ?thesis
      unfolding get_cash_values_unfold [OF oi]
      by (auto simp: oi split: sum.splits)
  qed
qed

lemma calls_nonempty:
  assumes "get_open_interest chain = Inr (Some oi)"
  shows "call_cash_values (Calls oi) \<noteq> []"
proof -
  have "Calls oi \<noteq> []"
    using get_open_interest_SomeD(3,5) [OF assms] by auto
  then have "card (fst ` set (Calls oi)) \<noteq> 0" by simp
  then show ?thesis
    using call_cash_values_length [of "Calls oi"] by auto
qed

lemma py_next_min:
  assumes "sv \<noteq> []"
  shows "\<exists>j<length sv. py_next sv (Min (set (map snd sv))) = Inr (fst (sv ! j)) \<and>
           snd (sv ! j) = Min (set (map snd sv)) \<and>
           (\<forall>i<j. snd (sv ! i) \<noteq> Min (set (map snd sv)))"
proof -
  let ?m = "Min (set (map snd sv))"
  have "?m \<in> set (map snd sv)"
    using assms by (intro Min_in) simp_all
  then obtain e where e: "e \<in> set sv" "snd e = ?m" by auto
  then have "\<exists>x\<in>set sv. snd x = ?m" by blast
  then have "find (\<lambda>e. snd e = ?m) sv \<noteq> None"
    unfolding find_None_iff by blast
  then obtain x where x: "find (\<lambda>e. snd e = ?m) sv = Some x" by auto
  then obtain j where j: "j < length sv" "snd (sv ! j) = ?m" "x = sv ! j"
    "\<forall>i<j. snd (sv ! i) \<noteq> ?m"
    unfolding find_Some_iff by blast
  have "py_next sv ?m = Inr (fst (sv ! j))"
    by (simp only: py_next_find x j(3) option.case)
  with j show ?thesis by blast
qed

lemma get_cash_values_returns:
  assumes oi: "get_open_interest chain = Inr (Some oi)"
    and len: "length (call_cash_values (Calls oi)) \<le> length (put_cash_values (Puts oi))"
  shows "\<exists>r. get_cash_values chain = Inr (Some r)"
proof -
  let ?cs = "call_cash_values (Calls oi)" and ?ps = "put_cash_values (Puts oi)"
  define sv where "sv = map (\<lambda>i. (fst (?cs ! i), snd (?cs ! i) + snd (?ps ! i))) [0..<length ?cs]"
  have sv: "sum_cash_values ?cs ?ps = Inr sv"
    using len by (simp add: sum_cash_values_eq sv_def)
  have ne: "sv \<noteq> []" using calls_nonempty [OF oi] by (simp add: sv_def)
  then have ne': "map snd sv \<noteq> []" by simp
  have m: "py_min (map snd sv) = Inr (Min (set (map snd sv)))"
    by (rule py_min_eq [OF ne'])
  from py_next_min [OF ne] obtain j where
    nx: "py_next sv (Min (set (map snd sv))) = Inr (fst (sv ! j))" by blast
  have "get_cash_values chain =
      Inr (Some \<lparr>cash_Calls = ?cs, cash_Puts = ?ps, Sums = sv,
                 max_pain = (fst (sv ! j), Min (set (map snd sv)))\<rparr>)"
    by (simp only: get_cash_values_unfold [OF oi] sv m nx sum.case)
  then show ?thesis by blast
qed

lemma get_cash_values_IndexError:
  assumes oi: "get_open_interest chain = Inr (Some oi)"
    and len: "length (put_cash_values (Puts oi)) < length (call_cash_values (Calls oi))"
  shows "get_cash_values chain = Inl IndexError"
  unfolding get_cash_values_unfold [OF oi] using len by (simp add: sum_cash_values_eq)

lemma cash_calls_strict_sorted: "sorted_wrt (<) (map fst (call_cash_values cd))"
  by (simp only: call_cash_values_keys strict_sorted_list_of_set)

lemma cash_puts_strict_sorted: "sorted_wrt (<) (map fst (put_cash_values pd))"
  by (simp only: put_cash_values_keys strict_sorted_list_of_set)

lemma get_cash_values_sorted:
  assumes "get_cash_values chain = Inr (Some r)"
  shows "sorted_wrt (<) (map fst (cash_Calls r))"
    and "sorted_wrt (<) (map fst (cash_Puts r))"
    and "sorted_wrt (<) (map fst (Sums r))"
proof -
  from get_cash_values_SomeD [OF assms] obtain oi where
    "get_open_interest chain = Inr (Some oi)" and
    c: "cash_Calls r = call_cash_values (Calls oi)" and
    p: "cash_Puts r = put_cash_values (Puts oi)" and
    s: "sum_cash_values (cash_Calls r) (cash_Puts r) = Inr (Sums r)"
    by blast
  show "sorted_wrt (<) (map fst (cash_Calls r))"
    by (simp only: c cash_calls_strict_sorted)
  show "sorted_wrt (<) (map fst (cash_Puts r))"
    by (simp only: p cash_puts_strict_sorted)
  show "sorted_wrt (<) (map fst (Sums r))"
    by (simp only: sum_cash_values_keys [OF s] c cash_calls_strict_sorted)
qed

lemma closes_count:
  assumes "get_open_interest chain = Inr (Some oi)"
  shows "length (call_cash_values (Calls oi)) = card (strike ` set (call_side chain))"
    and "length (put_cash_values (Puts oi)) = card (strike ` set (put_side chain))"
  by (simp_all only: call_cash_values_length put_cash_values_length
        get_open_interest_SomeD(1,2) [OF assms] strike_dict_of_key_set)








lemma side_strikes_distinct:
  assumes "distinct (map (\<lambda>c. (strike c, option_type c)) chain)"
  shows "distinct (map strike (filter (\<lambda>s. option_type s = t) chain))"
proof -
  from assms have "distinct (map (\<lambda>c. (strike c, option_type c)) (filter (\<lambda>s. option_type s = t) chain))"
    by (rule distinct_map_filter)
  moreover have "map (\<lambda>c. (strike c, option_type c)) (filter (\<lambda>s. option_type s = t) chain) =
      map (\<lambda>k. (k, t)) (map strike (filter (\<lambda>s. option_type s = t) chain))"
    by (induction chain) auto
  ultimately show ?thesis
    by (simp only: distinct_map) 
qed

lemma get_cash_values_not_None: "get_cash_values chain \<noteq> Inr None"
proof (cases "get_open_interest chain")
  case (Inl e)
  then show ?thesis by (simp add: get_cash_values_def)
next
  case (Inr o1)
  with get_open_interest_not_None [of chain] obtain oi where
    oi: "get_open_interest chain = Inr (Some oi)" by (cases o1) auto
  show ?thesis
    unfolding get_cash_values_unfold [OF oi] by (simp split: sum.splits)
qed

lemma get_open_interest_by_total:
  "(fst (zip_totals (fst (by_type_loop open_interest chain ([], [])))
           (snd (by_type_loop open_interest chain ([], []))) (0, 0)) = 0 \<longrightarrow>
      get_open_interest chain = Inl ZeroDivisionError) \<and>
   (fst (zip_totals (fst (by_type_loop open_interest chain ([], [])))
           (snd (by_type_loop open_interest chain ([], []))) (0, 0)) \<noteq> 0 \<longrightarrow>
      (\<exists>oi. get_open_interest chain = Inr (Some oi)))"
  by (simp add: get_open_interest_def true_div_def split: prod.splits)

section \<open>Max pain is the first minimum of the summed cash values\<close>

text \<open>
  Claim C1.  Whenever \<open>get_cash_values\<close> returns its data (which is exactly when
  \<open>sum_cash_values\<close> was built and is non-empty), the \<open>max_pain\<close> pair is an entry of
  \<open>Sums\<close>, its cash is the minimum of all cash values of \<open>Sums\<close>, no earlier entry has
  that cash, and, \<open>Sums\<close> being strictly ascending by strike, its strike is the lowest
  strike that attains the minimum.
\<close>
theorem max_pain_is_first_minimum:
  assumes "get_cash_values chain = Inr (Some r)"
  shows "Sums r \<noteq> [] \<and>
         snd (max_pain r) = Min (snd ` set (Sums r)) \<and>
         sorted_wrt (<) (map fst (Sums r)) \<and>
         (\<exists>j<length (Sums r). Sums r ! j = max_pain r \<and>
            (\<forall>i<j. snd (Sums r ! i) \<noteq> snd (max_pain r))) \<and>
         (\<forall>e\<in>set (Sums r). snd e = snd (max_pain r) \<longrightarrow> fst (max_pain r) \<le> fst e)"
proof -
  let ?sv = "Sums r"
  from get_cash_values_SomeD [OF assms] have
    mn: "py_min (map snd ?sv) = Inr (snd (max_pain r))" and
    nx: "py_next ?sv (snd (max_pain r)) = Inr (fst (max_pain r))"
    by auto
  have ne: "?sv \<noteq> []"
    using mn by (auto simp: py_min_def)
  then have "map snd ?sv \<noteq> []" by simp
  from py_min_eq [OF this] mn have m: "snd (max_pain r) = Min (set (map snd ?sv))"
    by simp
  have srt: "sorted_wrt (<) (map fst ?sv)"
    by (rule get_cash_values_sorted(3) [OF assms])
  from py_next_min [OF ne] obtain j where j: "j < length ?sv"
    "py_next ?sv (Min (set (map snd ?sv))) = Inr (fst (?sv ! j))"
    "snd (?sv ! j) = Min (set (map snd ?sv))"
    "\<forall>i<j. snd (?sv ! i) \<noteq> Min (set (map snd ?sv))"
    by blast
  from j(2) nx have "fst (max_pain r) = fst (?sv ! j)"
    by (simp only: m [symmetric]) simp
  with j(3) m have at_j: "?sv ! j = max_pain r"
    by (simp add: prod_eq_iff)
  have first: "\<forall>i<j. snd (?sv ! i) \<noteq> snd (max_pain r)"
    using j(4) by (simp only: m) 
  have lowest: "fst (max_pain r) \<le> fst e" if e: "e \<in> set ?sv" "snd e = snd (max_pain r)" for e
  proof -
    from e(1) obtain i where i: "i < length ?sv" "?sv ! i = e"
      by (auto simp: in_set_conv_nth)
    with e(2) first have "j \<le> i" by (meson not_le)
    have "sorted (map fst ?sv)" using srt by (rule strict_sorted_imp_sorted)
    then have "map fst ?sv ! j \<le> map fst ?sv ! i"
      using \<open>j \<le> i\<close> i(1) by (simp add: sorted_nth_mono del: nth_map)
    then show ?thesis using i j(1) at_j by simp
  qed
  have "snd (max_pain r) = Min (snd ` set ?sv)" using m by simp
  with ne srt at_j first j(1) lowest show ?thesis by blast
qed

theorem max_pain_is_first_minimum_witness:
  "get_cash_values scenario_chain =
     Inr (Some \<lparr>cash_Calls = [(100, 0), (105, 5000)], cash_Puts = [(100, 6000), (105, 0)],
                Sums = [(100, 6000), (105, 5000)], max_pain = (105, 5000)\<rparr>) \<and>
   (5000::rat) = Min (snd ` set [(100::rat, 6000::rat), (105, 5000)])"
proof -
  have h: "get_cash_values scenario_chain =
     Inr (Some \<lparr>cash_Calls = [(100, 0), (105, 5000)], cash_Puts = [(100, 6000), (105, 0)],
                Sums = [(100, 6000), (105, 5000)], max_pain = (105, 5000)\<rparr>)"
    by code_simp
  from max_pain_is_first_minimum [OF h] h show ?thesis by simp
qed

section \<open>The empty chain\<close>

text \<open>
  Claim C2.  The claim says that on an empty chain every core operation returns an empty
  structure and raises nothing.  The extractors do (\<open>_get_implied_volatility\<close> returns its
  dictionary with two empty lists, not \<open>{}\<close>).  \<open>get_open_interest\<close> divides 0 by 0 and
  raises \<open>ZeroDivisionError\<close>; \<open>get_cash_values\<close> calls it before its own guard
  (\<open># handle case where data is missing or empty\<close>), so the exception passes through and
  the guard's \<open>return []\<close> is reached for no chain at all.
\<close>

theorem empty_chain_raises:
  "get_open_interest [] = Inl ZeroDivisionError \<and>
   get_cash_values [] = Inl ZeroDivisionError \<and>
   (\<forall>chain. get_cash_values chain \<noteq> Inr None) \<and>
   get_volume [] = ([], []) \<and>
   get_last_bid_ask [] = ([], []) \<and>
   get_implied_volatility [] = Some ([], []) \<and>
   get_greeks [] = ([], [])"
proof -
  have oi: "get_open_interest [] = Inl ZeroDivisionError"
    by (simp add: get_open_interest_def true_div_def)
  have cash: "get_cash_values [] = Inl ZeroDivisionError"
    by (simp add: get_cash_values_def oi)
  have guard: "\<forall>chain. get_cash_values chain \<noteq> Inr None"
    by (simp only: get_cash_values_not_None not_False_eq_True simp_thms)
  have rest: "get_volume [] = ([], []) \<and> get_last_bid_ask [] = ([], []) \<and>
      get_implied_volatility [] = Some ([], []) \<and> get_greeks [] = ([], [])"
    by (simp add: get_volume_def get_last_bid_ask_def get_implied_volatility_def get_greeks_def)
  from oi cash guard rest show ?thesis by blast
qed

section \<open>Payoffs are never negative\<close>

text \<open>
  Claim C3.  For a chain whose contracts all have non-negative open interest, the payoff of
  every contract at every hypothetical close is the product
  \<open>(close - strike) * open_interest * 100\<close> (calls) or
  \<open>(strike - close) * open_interest * 100\<close> (puts) floored at zero, hence at least 0; every
  \<open>call_cash_sum\<close> and \<open>put_cash_sum\<close> is at least 0, and so is every cash value of the
  \<open>Calls\<close> and \<open>Puts\<close> lists that \<open>get_cash_values\<close> returns.
\<close>

theorem payoffs_nonnegative:
  assumes "\<forall>c\<in>set chain. 0 \<le> open_interest c"
  shows "(\<forall>c\<in>set chain. \<forall>close.
            call_cash_value close (strike c) (open_interest c) =
              max 0 ((close - strike c) * of_int (open_interest c) * 100) \<and>
            put_cash_value close (strike c) (open_interest c) =
              max 0 ((strike c - close) * of_int (open_interest c) * 100) \<and>
            0 \<le> call_cash_value close (strike c) (open_interest c) \<and>
            0 \<le> put_cash_value close (strike c) (open_interest c)) \<and>
         (\<forall>ks ois close. 0 \<le> call_cash_sum ks ois close \<and> 0 \<le> put_cash_sum ks ois close) \<and>
         (\<forall>r. get_cash_values chain = Inr (Some r) \<longrightarrow>
            (\<forall>e\<in>set (cash_Calls r). 0 \<le> snd e) \<and> (\<forall>e\<in>set (cash_Puts r). 0 \<le> snd e))"
proof -
  have per_contract: "call_cash_value close k oi = max 0 ((close - k) * of_int oi * 100) \<and>
      put_cash_value close k oi = max 0 ((k - close) * of_int oi * 100) \<and>
      0 \<le> call_cash_value close k oi \<and> 0 \<le> put_cash_value close k oi" for close k oi
    by (simp add: call_cash_value_def put_cash_value_def max_def)
  have sums: "(\<forall>e\<in>set (cash_Calls r). 0 \<le> snd e) \<and> (\<forall>e\<in>set (cash_Puts r). 0 \<le> snd e)"
    if r: "get_cash_values chain = Inr (Some r)" for r
  proof -
    from get_cash_values_SomeD [OF r] obtain oi where
      "get_open_interest chain = Inr (Some oi)" and
      c: "cash_Calls r = call_cash_values (Calls oi)" and
      p: "cash_Puts r = put_cash_values (Puts oi)"
      by blast
    show ?thesis
      by (simp only: c p) (blast intro: call_cash_values_nonneg put_cash_values_nonneg)
  qed
  from per_contract sums call_cash_sum_nonneg put_cash_sum_nonneg show ?thesis by blast
qed

theorem payoffs_nonnegative_witness:
  "list_all (\<lambda>c. 0 \<le> open_interest c) scenario_chain \<and>
   call_cash_value 95 100 10 = 0 \<and> put_cash_value 95 100 10 = 5000 \<and>
   get_cash_values scenario_chain =
     Inr (Some \<lparr>cash_Calls = [(100, 0), (105, 5000)], cash_Puts = [(100, 6000), (105, 0)],
                Sums = [(100, 6000), (105, 5000)], max_pain = (105, 5000)\<rparr>) \<and>
   list_all (\<lambda>e. 0 \<le> snd e) [(100::rat, 0::rat), (105, 5000)]"
proof -
  have h: "\<forall>c\<in>set scenario_chain. 0 \<le> open_interest c"
    by (simp add: scenario_chain_def mk_contract_def)
  have g: "get_cash_values scenario_chain =
     Inr (Some \<lparr>cash_Calls = [(100, 0), (105, 5000)], cash_Puts = [(100, 6000), (105, 0)],
                Sums = [(100, 6000), (105, 5000)], max_pain = (105, 5000)\<rparr>)"
    by code_simp
  from payoffs_nonnegative [OF h] g show ?thesis
    by (simp add: scenario_chain_def mk_contract_def call_cash_value_def put_cash_value_def)
qed

section \<open>The put/call ratio\<close>

text \<open>
  Claim C4, as stated: when \<open>total_call_oi\<close> is 0 the ratio is handed to the caller as an
  undefined value and no exception is raised.  On a chain with one call of open interest 0
  and one put, the division raises and nothing is returned.
\<close>

theorem zero_call_total_counterexample:
  "get_open_interest zero_call_oi_chain = Inl ZeroDivisionError"
  by (simp add: get_open_interest_def zero_call_oi_chain_def mk_contract_def true_div_def)

text \<open>
  Claim C4, amended.  With \<open>total_call_oi\<close> and \<open>total_put_oi\<close> the totals of the zipped
  loop: when \<open>total_call_oi\<close> is not 0 the function returns
  \<open>put_call_ratio = total_put_oi / total_call_oi\<close>; when it is 0 on a chain that has
  contracts, the division raises \<open>ZeroDivisionError\<close> and nothing is returned.  A returned
  result always has a non-zero \<open>total_call_oi\<close>.
\<close>

theorem put_call_ratio_or_zero_division:
  "(case by_type_loop open_interest chain ([], []) of
      (call_list, put_list) \<Rightarrow>
        (case zip_totals call_list put_list (0, 0) of
           (tc, tp) \<Rightarrow>
             (tc \<noteq> 0 \<longrightarrow>
                get_open_interest chain =
                  Inr (Some \<lparr>Calls = call_list, Puts = put_list, total_call_oi = tc,
                             total_put_oi = tp, put_call_ratio = of_int tp / of_int tc\<rparr>)) \<and>
             (chain \<noteq> [] \<and> tc = 0 \<longrightarrow> get_open_interest chain = Inl ZeroDivisionError))) \<and>
   (\<forall>r. get_open_interest chain = Inr (Some r) \<longrightarrow>
      total_call_oi r \<noteq> 0 \<and>
      put_call_ratio r = of_int (total_put_oi r) / of_int (total_call_oi r))"
proof -
  have 1: "(case by_type_loop open_interest chain ([], []) of
      (call_list, put_list) \<Rightarrow>
        (case zip_totals call_list put_list (0, 0) of
           (tc, tp) \<Rightarrow>
             (tc \<noteq> 0 \<longrightarrow>
                get_open_interest chain =
                  Inr (Some \<lparr>Calls = call_list, Puts = put_list, total_call_oi = tc,
                             total_put_oi = tp, put_call_ratio = of_int tp / of_int tc\<rparr>)) \<and>
             (chain \<noteq> [] \<and> tc = 0 \<longrightarrow> get_open_interest chain = Inl ZeroDivisionError)))"
    by (simp add: get_open_interest_def true_div_def split: prod.splits)
  have 2: "total_call_oi r \<noteq> 0 \<and>
      put_call_ratio r = of_int (total_put_oi r) / of_int (total_call_oi r)"
    if "get_open_interest chain = Inr (Some r)" for r
    using get_open_interest_SomeD(5,6) [OF that] by blast
  from 1 2 show ?thesis by blast
qed

theorem put_call_ratio_or_zero_division_witness:
  "zero_call_oi_chain \<noteq> [] \<and>
   get_open_interest zero_call_oi_chain = Inl ZeroDivisionError \<and>
   get_open_interest scenario_chain =
     Inr (Some \<lparr>Calls = [(100, 10), (105, 5)], Puts = [(100, 8), (105, 12)],
                total_call_oi = 15, total_put_oi = 20, put_call_ratio = 4 / 3\<rparr>) \<and>
   (4 / 3 :: rat) = of_int 20 / of_int 15"
proof -
  have z: "by_type_loop open_interest zero_call_oi_chain ([], []) = ([(100, 0)], [(100, 8)])"
    by (simp add: zero_call_oi_chain_def mk_contract_def)
  have n: "zero_call_oi_chain \<noteq> []"
    by (simp add: zero_call_oi_chain_def)
  have s: "by_type_loop open_interest scenario_chain ([], []) =
             ([(100, 10), (105, 5)], [(100, 8), (105, 12)])"
    by (simp add: scenario_chain_def mk_contract_def)
  from put_call_ratio_or_zero_division [of zero_call_oi_chain] n
  have 1: "get_open_interest zero_call_oi_chain = Inl ZeroDivisionError"
    by (simp add: z)
  from put_call_ratio_or_zero_division [of scenario_chain]
  have 2: "get_open_interest scenario_chain =
     Inr (Some \<lparr>Calls = [(100, 10), (105, 5)], Puts = [(100, 8), (105, 12)],
                total_call_oi = 15, total_put_oi = 20, put_call_ratio = 4 / 3\<rparr>)"
    by (simp add: s)
  from n 1 2 show ?thesis by simp
qed

section \<open>The totals are sums over the zipped prefix\<close>

text \<open>
  Claim C5.  The totals that \<open>get_open_interest\<close> returns are the sums of the open interest
  of the first \<open>min (len call_list) (len put_list)\<close> entries of \<open>call_list\<close> and of
  \<open>put_list\<close>; entries past the shorter length add nothing to either total.
\<close>

theorem totals_are_zipped_prefix_sums:
  assumes "get_open_interest chain = Inr (Some r)"
  shows "total_call_oi r =
           sum_list (map snd (take (min (length (Calls r)) (length (Puts r))) (Calls r))) \<and>
         total_put_oi r =
           sum_list (map snd (take (min (length (Calls r)) (length (Puts r))) (Puts r)))"
  using get_open_interest_SomeD(3,4) [OF assms] by blast

theorem totals_are_zipped_prefix_sums_witness:
  "get_open_interest uneven_chain =
     Inr (Some \<lparr>Calls = [(100, 10), (105, 5), (110, 7)], Puts = [(100, 8)],
                total_call_oi = 10, total_put_oi = 8, put_call_ratio = 4 / 5\<rparr>) \<and>
   (10::int) = sum_list (map snd (take (min 3 1) [(100::rat, 10::int), (105, 5), (110, 7)]))"
proof -
  have h: "get_open_interest uneven_chain =
     Inr (Some \<lparr>Calls = [(100, 10), (105, 5), (110, 7)], Puts = [(100, 8)],
                total_call_oi = 10, total_put_oi = 8, put_call_ratio = 4 / 5\<rparr>)"
    by (simp add: get_open_interest_def uneven_chain_def mk_contract_def true_div_def)
  from totals_are_zipped_prefix_sums [OF h] h show ?thesis by simp
qed

section \<open>The summed cash values are combined by position\<close>

text \<open>
  Claim C6.  When the chain has as many distinct call strikes as distinct put strikes (and
  the open interest step returns), \<open>get_cash_values\<close> returns, all three lists have that
  length, and the entry of \<open>Sums\<close> at index \<open>i\<close> has the strike of the call entry at index
  \<open>i\<close> and the cash of the call entry at \<open>i\<close> plus the cash of the put entry at \<open>i\<close>,
  whatever the strike of that put entry.
\<close>

theorem sums_are_positional:
  assumes oi: "get_open_interest chain = Inr (Some oi)"
    and eq: "card (strike ` set (call_side chain)) = card (strike ` set (put_side chain))"
  shows "\<exists>r. get_cash_values chain = Inr (Some r) \<and>
           cash_Calls r = call_cash_values (Calls oi) \<and>
           cash_Puts r = put_cash_values (Puts oi) \<and>
           length (cash_Calls r) = card (strike ` set (call_side chain)) \<and>
           length (cash_Puts r) = card (strike ` set (put_side chain)) \<and>
           length (Sums r) = length (cash_Calls r) \<and>
           (\<forall>i<length (Sums r).
              Sums r ! i =
                (fst (cash_Calls r ! i), snd (cash_Calls r ! i) + snd (cash_Puts r ! i)))"
proof -
  have len: "length (call_cash_values (Calls oi)) \<le> length (put_cash_values (Puts oi))"
    by (simp only: closes_count [OF oi] eq)
  from get_cash_values_returns [OF oi len] obtain r where
    r: "get_cash_values chain = Inr (Some r)" by blast
  from get_cash_values_SomeD [OF r] obtain oi' where
    oi': "get_open_interest chain = Inr (Some oi')" and
    c': "cash_Calls r = call_cash_values (Calls oi')" and
    p': "cash_Puts r = put_cash_values (Puts oi')" and
    s: "sum_cash_values (cash_Calls r) (cash_Puts r) = Inr (Sums r)"
    by blast
  from oi oi' have same: "oi' = oi" by simp
  note c = c' [unfolded same] and p = p' [unfolded same]
  have sv: "Sums r =
      map (\<lambda>i. (fst (cash_Calls r ! i), snd (cash_Calls r ! i) + snd (cash_Puts r ! i)))
        [0..<length (cash_Calls r)]"
    by (rule sum_cash_values_InrD(2) [OF s])
  have l: "length (Sums r) = length (cash_Calls r)"
    by (subst sv) simp
  have nth: "Sums r ! i =
      (fst (cash_Calls r ! i), snd (cash_Calls r ! i) + snd (cash_Puts r ! i))"
    if "i < length (Sums r)" for i
    using that l by (subst sv) simp
  have lc: "length (cash_Calls r) = card (strike ` set (call_side chain))"
    by (simp only: c closes_count [OF oi])
  have lp: "length (cash_Puts r) = card (strike ` set (put_side chain))"
    by (simp only: p closes_count [OF oi])
  from r c p lc lp l nth show ?thesis by blast
qed

theorem sums_are_positional_witness:
  "card (strike ` set (call_side scenario_chain)) = card (strike ` set (put_side scenario_chain)) \<and>
   get_cash_values scenario_chain =
     Inr (Some \<lparr>cash_Calls = [(100, 0), (105, 5000)], cash_Puts = [(100, 6000), (105, 0)],
                Sums = [(100, 6000), (105, 5000)], max_pain = (105, 5000)\<rparr>) \<and>
   [(100, 6000), (105, 5000)] ! 1 = (105::rat, 5000 + (0::rat))"
proof -
  have o: "get_open_interest scenario_chain =
     Inr (Some \<lparr>Calls = [(100, 10), (105, 5)], Puts = [(100, 8), (105, 12)],
                total_call_oi = 15, total_put_oi = 20, put_call_ratio = 4 / 3\<rparr>)"
    by (simp add: get_open_interest_def scenario_chain_def mk_contract_def true_div_def)
  have e: "card (strike ` set (call_side scenario_chain)) =
           card (strike ` set (put_side scenario_chain))"
    by (simp add: scenario_chain_def mk_contract_def call_side_def put_side_def)
  have g: "get_cash_values scenario_chain =
     Inr (Some \<lparr>cash_Calls = [(100, 0), (105, 5000)], cash_Puts = [(100, 6000), (105, 0)],
                Sums = [(100, 6000), (105, 5000)], max_pain = (105, 5000)\<rparr>)"
    by code_simp
  from sums_are_positional [OF o e] e g show ?thesis by simp
qed

section \<open>One entry per strike, the last occurrence wins\<close>

text \<open>
  Claim C7.  In the result of \<open>get_open_interest\<close> the strikes of \<open>Calls\<close> are pairwise
  distinct and are exactly the strikes of the call contracts of the chain, and the open
  interest of each entry is that of the last call contract with this strike in provider
  order; the same holds for \<open>Puts\<close>.
\<close>

theorem one_entry_per_strike_last_write_wins:
  assumes "get_open_interest chain = Inr (Some r)"
  shows "distinct (map fst (Calls r)) \<and>
         fst ` set (Calls r) = strike ` set (call_side chain) \<and>
         (\<forall>e\<in>set (Calls r).
            snd e = open_interest (last (filter (\<lambda>s. strike s = fst e) (call_side chain)))) \<and>
         distinct (map fst (Puts r)) \<and>
         fst ` set (Puts r) = strike ` set (put_side chain) \<and>
         (\<forall>e\<in>set (Puts r).
            snd e = open_interest (last (filter (\<lambda>s. strike s = fst e) (put_side chain))))"
proof -
  note c = get_open_interest_SomeD(1) [OF assms] and p = get_open_interest_SomeD(2) [OF assms]
  have side: "distinct (map fst (strike_dict_of open_interest side)) \<and>
      fst ` set (strike_dict_of open_interest side) = strike ` set side \<and>
      (\<forall>e\<in>set (strike_dict_of open_interest side).
         snd e = open_interest (last (filter (\<lambda>s. strike s = fst e) side)))" for side
  proof (intro conjI ballI)
    show "distinct (map fst (strike_dict_of open_interest side))"
      by (rule strike_dict_of_distinct)
    show "fst ` set (strike_dict_of open_interest side) = strike ` set side"
      by (rule strike_dict_of_key_set)
    fix e assume "e \<in> set (strike_dict_of open_interest side)"
    then have "(fst e, snd e) \<in> set (strike_dict_of open_interest side)" by simp
    then show "snd e = open_interest (last (filter (\<lambda>s. strike s = fst e) side))"
      by (simp only: strike_dict_of_entry)
  qed
  from side [of "call_side chain"] side [of "put_side chain"] show ?thesis
    by (simp only: c p) blast
qed

theorem one_entry_per_strike_last_write_wins_witness:
  "get_open_interest repeated_strike_chain =
     Inr (Some \<lparr>Calls = [(105, 7), (100, 5)], Puts = [(100, 8)], total_call_oi = 7,
                total_put_oi = 8, put_call_ratio = 8 / 7\<rparr>) \<and>
   distinct (map fst [(105::rat, 7::int), (100, 5)]) \<and>
   (7::int) = open_interest (last (filter (\<lambda>s. strike s = 105) (call_side repeated_strike_chain)))"
proof -
  have h: "get_open_interest repeated_strike_chain =
     Inr (Some \<lparr>Calls = [(105, 7), (100, 5)], Puts = [(100, 8)], total_call_oi = 7,
                total_put_oi = 8, put_call_ratio = 8 / 7\<rparr>)"
    by (simp add: get_open_interest_def repeated_strike_chain_def mk_contract_def true_div_def)
  let ?R = "\<lparr>Calls = [(105::rat, 7::int), (100, 5)], Puts = [(100, 8)], total_call_oi = 7,
                total_put_oi = 8, put_call_ratio = 8 / 7\<rparr>"
  note t = one_entry_per_strike_last_write_wins [OF h]
  from t have "distinct (map fst (Calls ?R))" by blast
  then have a: "distinct (map fst [(105::rat, 7::int), (100, 5)])" by simp
  from t have "\<forall>e\<in>set (Calls ?R).
          snd e = open_interest
            (last (filter (\<lambda>s. strike s = fst e) (call_side repeated_strike_chain)))"
    by blast
  then have b: "\<forall>e\<in>set [(105::rat, 7::int), (100, 5)].
          snd e = open_interest
            (last (filter (\<lambda>s. strike s = fst e) (call_side repeated_strike_chain)))"
    by simp
  from b have c: "(7::int) =
      open_interest (last (filter (\<lambda>s. strike s = 105) (call_side repeated_strike_chain)))"
    by simp
  from h a c show ?thesis by blast
qed

section \<open>Order of the per-strike lists\<close>




section \<open>Partition into calls and puts\<close>

text \<open>
  Claim C9.  For a chain of call and put contracts without a repeated (strike, option type)
  pair, the loop that partitions by option type puts every contract on exactly one side, in
  provider order: the two sides, tagged with their type and united, are the contracts of
  the chain, and their lengths add up to the length of the chain.  The field read from each
  contract is arbitrary (\<open>open_interest\<close> in \<open>get_open_interest\<close>; the identity keeps the
  whole contract).
\<close>

theorem partition_round_trip:
  assumes d: "distinct (map (\<lambda>c. (strike c, option_type c)) chain)"
    and t: "\<forall>c\<in>set chain. option_type c = ''call'' \<or> option_type c = ''put''"
  shows "(case by_type_loop field chain ([], []) of
            (call_data, put_data) \<Rightarrow>
              call_data = map (\<lambda>c. (strike c, field c)) (call_side chain) \<and>
              put_data = map (\<lambda>c. (strike c, field c)) (put_side chain) \<and>
              (\<lambda>(k, v). (k, ''call'', v)) ` set call_data \<union>
                (\<lambda>(k, v). (k, ''put'', v)) ` set put_data =
                (\<lambda>c. (strike c, option_type c, field c)) ` set chain \<and>
              length call_data + length put_data = length chain)"
proof -
  have c: "strike_dict_of field (call_side chain) = map (\<lambda>c. (strike c, field c)) (call_side chain)"
    unfolding strike_dict_of_def call_side_def
    by (rule fold_update_distinct_keys) (rule side_strikes_distinct [OF d])
  have p: "strike_dict_of field (put_side chain) = map (\<lambda>c. (strike c, field c)) (put_side chain)"
    unfolding strike_dict_of_def put_side_def
    by (rule fold_update_distinct_keys) (rule side_strikes_distinct [OF d])
  have ci: "(\<lambda>(k, v). (k, ''call'', v)) ` set (map (\<lambda>c. (strike c, field c)) (call_side chain)) =
      (\<lambda>c. (strike c, option_type c, field c)) ` set (call_side chain)"
    by (auto simp: call_side_def image_iff)
  have pi: "(\<lambda>(k, v). (k, ''put'', v)) ` set (map (\<lambda>c. (strike c, field c)) (put_side chain)) =
      (\<lambda>c. (strike c, option_type c, field c)) ` set (put_side chain)"
    by (auto simp: put_side_def image_iff)
  have un: "set (call_side chain) \<union> set (put_side chain) = set chain"
    using t by (auto simp: call_side_def put_side_def)
  have img: "(\<lambda>(k, v). (k, ''call'', v)) ` set (map (\<lambda>c. (strike c, field c)) (call_side chain)) \<union>
      (\<lambda>(k, v). (k, ''put'', v)) ` set (map (\<lambda>c. (strike c, field c)) (put_side chain)) =
      (\<lambda>c. (strike c, option_type c, field c)) ` set chain"
    by (simp only: ci pi image_Un [symmetric] un)
  have "filter (\<lambda>s. option_type s = ''put'') chain = filter (\<lambda>s. \<not> option_type s = ''call'') chain"
    using t by (intro filter_cong) auto
  then have len: "length (call_side chain) + length (put_side chain) = length chain"
    by (simp add: call_side_def put_side_def sum_length_filter_compl)
  from img len show ?thesis
    by (simp only: by_type_loop_sides c p prod.case length_map)
qed

theorem partition_round_trip_witness:
  "distinct (map (\<lambda>c. (strike c, option_type c)) scenario_chain) \<and>
   list_all (\<lambda>c. option_type c = ''call'' \<or> option_type c = ''put'') scenario_chain \<and>
   by_type_loop open_interest scenario_chain ([], []) =
     ([(100, 10), (105, 5)], [(100, 8), (105, 12)]) \<and>
   length [(100::rat, 10::int), (105, 5)] + length [(100::rat, 8::int), (105, 12)] =
     length scenario_chain"
proof -
  have d: "distinct (map (\<lambda>c. (strike c, option_type c)) scenario_chain)"
    by (simp add: scenario_chain_def mk_contract_def)
  have t: "\<forall>c\<in>set scenario_chain. option_type c = ''call'' \<or> option_type c = ''put''"
    by (simp add: scenario_chain_def mk_contract_def)
  have b: "by_type_loop open_interest scenario_chain ([], []) =
     ([(100, 10), (105, 5)], [(100, 8), (105, 12)])"
    by (simp add: scenario_chain_def mk_contract_def)
  have "length [(100::rat, 10::int), (105, 5)] + length [(100::rat, 8::int), (105, 12)] =
     length scenario_chain"
    using partition_round_trip [OF d t, of open_interest]
    unfolding b prod.case by blast
  with d t b show ?thesis by (simp add: list_all_iff)
qed

section \<open>Out-of-range access in the summation loop\<close>

text \<open>
  Claim C10, as stated: on every chain with more distinct call strikes than distinct put
  strikes the summation loop reaches the out-of-range access.  On a chain of two calls and
  no put the zipped call total is 0: \<open>get_open_interest\<close> raises \<open>ZeroDivisionError\<close>,
  \<open>get_cash_values\<close> ends there, and the loop never runs.
\<close>

theorem calls_only_counterexample:
  "card (strike ` set (put_side calls_only_chain)) <
     card (strike ` set (call_side calls_only_chain)) \<and>
   get_open_interest calls_only_chain = Inl ZeroDivisionError \<and>
   get_cash_values calls_only_chain = Inl ZeroDivisionError \<and>
   get_cash_values calls_only_chain \<noteq> Inl IndexError"
proof -
  have c: "card (strike ` set (put_side calls_only_chain)) <
     card (strike ` set (call_side calls_only_chain))"
    by (simp add: calls_only_chain_def mk_contract_def call_side_def put_side_def)
  have oi: "get_open_interest calls_only_chain = Inl ZeroDivisionError"
    by (simp add: get_open_interest_def calls_only_chain_def mk_contract_def true_div_def)
  have g: "get_cash_values calls_only_chain = Inl ZeroDivisionError"
    by (simp add: get_cash_values_def oi)
  from c oi g show ?thesis by simp
qed

text \<open>
  Claim C10, amended.  On a chain with more distinct call strikes than distinct put strikes,
  \<open>get_cash_values\<close> raises \<open>IndexError\<close> in the summation loop whenever the zipped call
  total is not 0 (the open interest step then returns and the loop runs); when that total
  is 0 it raises the \<open>ZeroDivisionError\<close> of \<open>get_open_interest\<close> and the loop is not
  reached.  On a chain with at least as many distinct put strikes as call strikes
  \<open>get_cash_values\<close> never raises \<open>IndexError\<close>, and it returns its data whenever the open
  interest step returns.
\<close>

theorem index_error_after_open_interest:
  "(card (strike ` set (put_side chain)) < card (strike ` set (call_side chain)) \<longrightarrow>
      (fst (zip_totals (fst (by_type_loop open_interest chain ([], [])))
              (snd (by_type_loop open_interest chain ([], []))) (0, 0)) \<noteq> 0 \<longrightarrow>
         (\<exists>oi. get_open_interest chain = Inr (Some oi)) \<and>
         get_cash_values chain = Inl IndexError) \<and>
      (fst (zip_totals (fst (by_type_loop open_interest chain ([], [])))
              (snd (by_type_loop open_interest chain ([], []))) (0, 0)) = 0 \<longrightarrow>
         get_open_interest chain = Inl ZeroDivisionError \<and>
         get_cash_values chain = Inl ZeroDivisionError)) \<and>
   (card (strike ` set (call_side chain)) \<le> card (strike ` set (put_side chain)) \<longrightarrow>
      get_cash_values chain \<noteq> Inl IndexError \<and>
      (\<forall>oi. get_open_interest chain = Inr (Some oi) \<longrightarrow>
         (\<exists>r. get_cash_values chain = Inr (Some r))))"
proof -
  let ?nc = "card (strike ` set (call_side chain))" and ?np = "card (strike ` set (put_side chain))"
  let ?tc = "fst (zip_totals (fst (by_type_loop open_interest chain ([], [])))
              (snd (by_type_loop open_interest chain ([], []))) (0, 0))"
  have idx: "get_cash_values chain = Inl IndexError"
    if oi: "get_open_interest chain = Inr (Some oi)" and "?np < ?nc" for oi
  proof (rule get_cash_values_IndexError [OF oi])
    show "length (put_cash_values (Puts oi)) < length (call_cash_values (Calls oi))"
      using that(2) by (simp only: closes_count [OF oi])
  qed
  have nz: "(\<exists>oi. get_open_interest chain = Inr (Some oi)) \<and> get_cash_values chain = Inl IndexError"
    if "?np < ?nc" "?tc \<noteq> 0"
  proof -
    from that(2) get_open_interest_by_total [of chain] obtain oi where
      oi: "get_open_interest chain = Inr (Some oi)" by blast
    from idx [OF oi that(1)] oi show ?thesis by blast
  qed
  have z: "get_open_interest chain = Inl ZeroDivisionError \<and>
           get_cash_values chain = Inl ZeroDivisionError" if "?tc = 0"
  proof -
    from that get_open_interest_by_total [of chain]
    have oi: "get_open_interest chain = Inl ZeroDivisionError" by blast
    then show ?thesis by (simp add: get_cash_values_def)
  qed
  have ret: "\<exists>r. get_cash_values chain = Inr (Some r)"
    if le: "?nc \<le> ?np" and oi: "get_open_interest chain = Inr (Some oi)" for oi
  proof (rule get_cash_values_returns [OF oi])
    show "length (call_cash_values (Calls oi)) \<le> length (put_cash_values (Puts oi))"
      using le by (simp only: closes_count [OF oi])
  qed
  have noidx: "get_cash_values chain \<noteq> Inl IndexError" if le: "?nc \<le> ?np"
  proof (cases "?tc = 0")
    case True
    from z [OF True] show ?thesis by simp
  next
    case False
    with get_open_interest_by_total [of chain] obtain oi where
      oi: "get_open_interest chain = Inr (Some oi)" by blast
    from ret [OF le oi] show ?thesis by auto
  qed
  from nz z ret noidx show ?thesis by blast
qed

theorem index_error_after_open_interest_witness:
  "card (strike ` set (put_side uneven_chain)) < card (strike ` set (call_side uneven_chain)) \<and>
   get_open_interest uneven_chain =
     Inr (Some \<lparr>Calls = [(100, 10), (105, 5), (110, 7)], Puts = [(100, 8)],
                total_call_oi = 10, total_put_oi = 8, put_call_ratio = 4 / 5\<rparr>) \<and>
   get_cash_values uneven_chain = Inl IndexError \<and>
   card (strike ` set (put_side calls_only_chain)) <
     card (strike ` set (call_side calls_only_chain)) \<and>
   get_cash_values calls_only_chain = Inl ZeroDivisionError \<and>
   card (strike ` set (call_side scenario_chain)) \<le> card (strike ` set (put_side scenario_chain)) \<and>
   get_cash_values scenario_chain \<noteq> Inl IndexError"
proof -
  have h: "get_open_interest uneven_chain =
     Inr (Some \<lparr>Calls = [(100, 10), (105, 5), (110, 7)], Puts = [(100, 8)],
                total_call_oi = 10, total_put_oi = 8, put_call_ratio = 4 / 5\<rparr>)"
    by (simp add: get_open_interest_def uneven_chain_def mk_contract_def true_div_def)
  have c: "card (strike ` set (put_side uneven_chain)) < card (strike ` set (call_side uneven_chain))"
    by (simp add: uneven_chain_def mk_contract_def call_side_def put_side_def)
  have tu: "fst (zip_totals (fst (by_type_loop open_interest uneven_chain ([], [])))
              (snd (by_type_loop open_interest uneven_chain ([], []))) (0, 0)) \<noteq> 0"
    by (simp add: uneven_chain_def mk_contract_def)
  have c0: "card (strike ` set (put_side calls_only_chain)) <
     card (strike ` set (call_side calls_only_chain))"
    by (simp add: calls_only_chain_def mk_contract_def call_side_def put_side_def)
  have t0: "fst (zip_totals (fst (by_type_loop open_interest calls_only_chain ([], [])))
              (snd (by_type_loop open_interest calls_only_chain ([], []))) (0, 0)) = 0"
    by (simp add: calls_only_chain_def mk_contract_def)
  have e: "card (strike ` set (call_side scenario_chain)) \<le>
           card (strike ` set (put_side scenario_chain))"
    by (simp add: scenario_chain_def mk_contract_def call_side_def put_side_def)
  from index_error_after_open_interest [of uneven_chain] c tu
  have 1: "get_cash_values uneven_chain = Inl IndexError" by blast
  from index_error_after_open_interest [of calls_only_chain] c0 t0
  have 2: "get_cash_values calls_only_chain = Inl ZeroDivisionError" by blast
  from index_error_after_open_interest [of scenario_chain] e
  have 3: "get_cash_values scenario_chain \<noteq> Inl IndexError" by blast
  from h c 1 c0 2 e 3 show ?thesis by blast
qed

end
